theory Spec2Isabelle
  imports Main "HOL-Library.Multiset" "HOL-Library.Log_Nat"
begin

section \<open>Values of the program\<close>

text \<open>
  A JavaScript string is a sequence of UTF-16 code units; it is modelled as the list of
  their numbers, so that the whitespace of \<^verbatim>\<open>trim()\<close> and the class \<^verbatim>\<open>\D\<close> are
  the ones of the language. \<open>js\<close> turns an ASCII literal into such a string.
\<close>

type_synonym jsstring = "nat list"

definition js :: "string \<Rightarrow> jsstring" where
  "js s = map of_char s"

text \<open>
  What \<^verbatim>\<open>JSON.parse\<close> can return. A Number is carried as the text \<^verbatim>\<open>String()\<close>
  gives for it, which is the only observation the sorter makes of a number. The members
  of an object are kept in source order; a later duplicate key wins.
\<close>

datatype json =
    JNull
  | JBool bool
  | JNumber jsstring
  | JString jsstring
  | JArray "json list"
  | JObject "(jsstring \<times> json) list"

text \<open>
  A Number as the comparator sees it. Every number the comparator computes is \<^verbatim>\<open>NaN\<close>,
  an infinity, or a double whose value is an integer; \<open>Num n\<close> is the double of value
  \<open>n\<close>. Negative zero is not told from zero, which no comparison does either.
\<close>

datatype jsnum = NaN | Num int | Infinity | NegInfinity

datatype exn = SyntaxError | TypeError | RequestError

fun neg :: "jsnum \<Rightarrow> jsnum" where
  "neg NaN = NaN"
| "neg (Num n) = Num (- n)"
| "neg Infinity = NegInfinity"
| "neg NegInfinity = Infinity"

text \<open>
  The double nearest to an integer, ties to the even significand: an integer below
  \<open>2^53\<close> is a double; a longer one keeps its 53 leading bits, rounded; what rounds to
  \<open>2^1024\<close> or more is \<^verbatim>\<open>Infinity\<close>.
\<close>

definition roundMagnitude :: "int \<Rightarrow> jsnum" where
  "roundMagnitude m =
     (if m < 2 ^ 53 then Num m
      else let e = nat (bitlen m - 53);
               q = m div 2 ^ e;
               r = m mod 2 ^ e;
               h = 2 ^ (e - 1);
               q' = (if h < r \<or> (r = h \<and> odd q) then q + 1 else q)
           in if 2 ^ 1024 \<le> q' * 2 ^ e then Infinity else Num (q' * 2 ^ e))"

definition toDouble :: "int \<Rightarrow> jsnum" where
  "toDouble d = (if d < 0 then neg (roundMagnitude (- d)) else roundMagnitude d)"

text \<open>The subtraction of the language on these numbers.\<close>

fun minus_js :: "jsnum \<Rightarrow> jsnum \<Rightarrow> jsnum" where
  "minus_js NaN b = NaN"
| "minus_js a NaN = NaN"
| "minus_js (Num a) (Num b) = toDouble (a - b)"
| "minus_js (Num a) Infinity = NegInfinity"
| "minus_js (Num a) NegInfinity = Infinity"
| "minus_js Infinity Infinity = NaN"
| "minus_js Infinity b = Infinity"
| "minus_js NegInfinity NegInfinity = NaN"
| "minus_js NegInfinity b = NegInfinity"

text \<open>The comparisons \<^verbatim>\<open><\<close> and \<^verbatim>\<open><=\<close> of the language: false as soon as one side is
  \<^verbatim>\<open>NaN\<close>.\<close>

fun less_js :: "jsnum \<Rightarrow> jsnum \<Rightarrow> bool" where
  "less_js NaN b = False"
| "less_js a NaN = False"
| "less_js (Num a) (Num b) = (a < b)"
| "less_js a Infinity = (a \<noteq> Infinity)"
| "less_js a NegInfinity = False"
| "less_js NegInfinity b = True"
| "less_js Infinity b = False"

definition le_js :: "jsnum \<Rightarrow> jsnum \<Rightarrow> bool" where
  "le_js a b = (a \<noteq> NaN \<and> b \<noteq> NaN \<and> (a = b \<or> less_js a b))"

section \<open>String built-ins used by the source\<close>

definition isDigit :: "nat \<Rightarrow> bool" where
  "isDigit c = (48 \<le> c \<and> c \<le> 57)"

text \<open>\<^verbatim>\<open>s.replace(/\D/g, '')\<close>: every code unit that is not a decimal digit is removed.\<close>

definition replace_nondigits :: "jsstring \<Rightarrow> jsstring" where
  "replace_nondigits s = filter isDigit s"

text \<open>
  \<^verbatim>\<open>parseInt\<close> on a string that starts with neither whitespace, a sign nor \<^verbatim>\<open>0x\<close>
  (the source passes digits only): the longest prefix of decimal digits, read in base
  10 and rounded to the nearest double; \<^verbatim>\<open>NaN\<close> when that prefix is empty.
\<close>

definition digitsValue :: "jsstring \<Rightarrow> int" where
  "digitsValue ds = foldl (\<lambda>acc c. acc * 10 + (int c - 48)) 0 ds"

definition parseInt :: "jsstring \<Rightarrow> jsnum" where
  "parseInt s = (let ds = takeWhile isDigit s in if ds = [] then NaN else toDouble (digitsValue ds))"

text \<open>\<^verbatim>\<open>s.includes(pat)\<close>: \<open>pat\<close> occurs in \<open>s\<close> as a contiguous run, case-sensitively.\<close>

fun includes_js :: "jsstring \<Rightarrow> jsstring \<Rightarrow> bool" where
  "includes_js [] pat = (pat = [])"
| "includes_js (c # cs) pat = (take (length pat) (c # cs) = pat \<or> includes_js cs pat)"

text \<open>The code units \<^verbatim>\<open>trim()\<close> strips: WhiteSpace and LineTerminator of ECMAScript.\<close>

definition isWhiteSpace :: "nat \<Rightarrow> bool" where
  "isWhiteSpace c = (c \<in> {9, 10, 11, 12, 13, 32, 160, 5760, 8232, 8233, 8239, 8287, 12288, 65279}
     \<or> (8192 \<le> c \<and> c \<le> 8202))"

definition trim :: "jsstring \<Rightarrow> jsstring" where
  "trim s = rev (dropWhile isWhiteSpace (rev (dropWhile isWhiteSpace s)))"

section \<open>Property access and String()\<close>

text \<open>
  \<^verbatim>\<open>a.year\<close>: a TypeError on \<^verbatim>\<open>null\<close>; the member named \<^verbatim>\<open>year\<close> of an object
  (\<open>None\<close> is \<^verbatim>\<open>undefined\<close>); \<^verbatim>\<open>undefined\<close> on every other value.
\<close>

fun getProp :: "json \<Rightarrow> jsstring \<Rightarrow> exn + json option" where
  "getProp JNull k = Inl TypeError"
| "getProp (JObject kvs) k = Inr (map_of (rev kvs) k)"
| "getProp _ k = Inr None"

text \<open>
  \<^verbatim>\<open>String(v)\<close>. An array is the join of its elements, \<^verbatim>\<open>null\<close> giving the empty
  string. An object goes through \<^verbatim>\<open>toString\<close> and \<^verbatim>\<open>valueOf\<close>: a parsed object with
  a member named \<^verbatim>\<open>toString\<close> hides the inherited method behind a value that cannot be
  called, and the conversion is a TypeError; every other parsed object is
  \<^verbatim>\<open>[object Object]\<close>.
\<close>

fun String_js :: "json \<Rightarrow> exn + jsstring"
  and join_js :: "json list \<Rightarrow> exn + jsstring" where
  "String_js JNull = Inr (js ''null'')"
| "String_js (JBool b) = Inr (if b then js ''true'' else js ''false'')"
| "String_js (JNumber s) = Inr s"
| "String_js (JString s) = Inr s"
| "String_js (JArray xs) = join_js xs"
| "String_js (JObject kvs) =
     (if js ''toString'' \<in> fst ` set kvs then Inl TypeError else Inr (js ''[object Object]''))"
| "join_js [] = Inr []"
| "join_js [x] = (if x = JNull then Inr [] else String_js x)"
| "join_js (x # y # ys) =
     (case (if x = JNull then Inr [] else String_js x) of
        Inl e \<Rightarrow> Inl e
      | Inr s \<Rightarrow> (case join_js (y # ys) of
            Inl e \<Rightarrow> Inl e
          | Inr t \<Rightarrow> Inr (s @ js '','' @ t)))"

definition String_of :: "json option \<Rightarrow> exn + jsstring" where
  "String_of v = (case v of None \<Rightarrow> Inr (js ''undefined'') | Some x \<Rightarrow> String_js x)"

section \<open>The comparator of \<^verbatim>\<open>fetchTimeline\<close>\<close>

text \<open>
  The expression both \<^verbatim>\<open>yearA\<close> and \<^verbatim>\<open>yearB\<close> are computed by, on the string
  \<^verbatim>\<open>String(a.year)\<close>: the parsed digits, negated when the string includes \<^verbatim>\<open>BC\<close>.
\<close>

definition effectiveYear :: "jsstring \<Rightarrow> jsnum" where
  "effectiveYear s =
     (if includes_js s (js ''BC'') then neg (parseInt (replace_nondigits s))
      else parseInt (replace_nondigits s))"

definition yearOf :: "json \<Rightarrow> exn + jsnum" where
  "yearOf a = (case getProp a (js ''year'') of
       Inl e \<Rightarrow> Inl e
     | Inr v \<Rightarrow> (case String_of v of
           Inl e \<Rightarrow> Inl e
         | Inr s \<Rightarrow> Inr (effectiveYear s)))"

definition compareEvents :: "json \<Rightarrow> json \<Rightarrow> exn + jsnum" where
  "compareEvents a b = (case yearOf a of
       Inl e \<Rightarrow> Inl e
     | Inr yearA \<Rightarrow> (case yearOf b of
           Inl e \<Rightarrow> Inl e
         | Inr yearB \<Rightarrow> Inr (minus_js yearA yearB)))"

section \<open>\<^verbatim>\<open>Array.prototype.sort\<close>\<close>

text \<open>
  The built-in sort calls the comparator through SortCompare, which reads a \<^verbatim>\<open>NaN\<close>
  result as \<open>0\<close>, and looks at the sign of what it gets. An exception of the comparator
  ends the sort. An array of fewer than two elements is returned without a call.

  When the comparator is a consistent ordering of the elements of the array, the language
  fixes the result: the one stable ascending arrangement. \<open>sort_by\<close> computes it by
  insertion from the right: an element moves behind exactly the later elements that the
  comparator puts strictly before it. When the comparator is not consistent, as with a
  \<^verbatim>\<open>NaN\<close> year next to two different years, the order is the engine's, and \<open>sort_by\<close>
  need not be it; \<open>timSortShort\<close> below is V8's.
\<close>

definition sortCompare :: "('a \<Rightarrow> 'a \<Rightarrow> exn + jsnum) \<Rightarrow> 'a \<Rightarrow> 'a \<Rightarrow> exn + jsnum" where
  "sortCompare cmp x y = (case cmp x y of
       Inl e \<Rightarrow> Inl e
     | Inr v \<Rightarrow> Inr (if v = NaN then Num 0 else v))"

fun insert_by :: "('a \<Rightarrow> 'a \<Rightarrow> exn + jsnum) \<Rightarrow> 'a \<Rightarrow> 'a list \<Rightarrow> exn + 'a list" where
  "insert_by cmp x [] = Inr [x]"
| "insert_by cmp x (y # ys) = (case sortCompare cmp x y of
       Inl e \<Rightarrow> Inl e
     | Inr v \<Rightarrow>
         if less_js (Num 0) v
         then (case insert_by cmp x ys of Inl e \<Rightarrow> Inl e | Inr zs \<Rightarrow> Inr (y # zs))
         else Inr (x # y # ys))"

fun sort_by :: "('a \<Rightarrow> 'a \<Rightarrow> exn + jsnum) \<Rightarrow> 'a list \<Rightarrow> exn + 'a list" where
  "sort_by cmp [] = Inr []"
| "sort_by cmp (x # xs) = (case sort_by cmp xs of
       Inl e \<Rightarrow> Inl e
     | Inr ys \<Rightarrow> insert_by cmp x ys)"

definition sortedEvents :: "json list \<Rightarrow> exn + json list" where
  "sortedEvents events = sort_by compareEvents events"

subsection \<open>The sort of V8 on a short array\<close>

text \<open>
  V8 sorts with TimSort. On an array of fewer than 64 elements the minimal run length is
  the length of the array, so the whole sort is: take the run the array starts with
  (CountAndMakeRun), then put each later element into it by binary insertion
  (BinaryInsertionSort); nothing is merged.

  CountAndMakeRun compares the second element with the first; the run is descending when
  the result is negative. It goes on while each element compared with the one before it
  gives a negative result (descending run) or a result that is not negative (any other
  run), and a descending run is reversed.
\<close>

fun takeRun ::
  "('a \<Rightarrow> 'a \<Rightarrow> exn + jsnum) \<Rightarrow> bool \<Rightarrow> 'a \<Rightarrow> 'a list \<Rightarrow> exn + ('a list \<times> 'a list)" where
  "takeRun cmp isDescending previous [] = Inr ([], [])"
| "takeRun cmp isDescending previous (current # rest) =
     (case sortCompare cmp current previous of
        Inl e \<Rightarrow> Inl e
      | Inr order \<Rightarrow>
          if (if isDescending then less_js order (Num 0) else \<not> less_js order (Num 0))
          then (case takeRun cmp isDescending current rest of
                  Inl e \<Rightarrow> Inl e
                | Inr (run, later) \<Rightarrow> Inr (current # run, later))
          else Inr ([], current # rest))"

fun countAndMakeRun ::
  "('a \<Rightarrow> 'a \<Rightarrow> exn + jsnum) \<Rightarrow> 'a list \<Rightarrow> exn + ('a list \<times> 'a list)" where
  "countAndMakeRun cmp (x # y # rest) =
     (case sortCompare cmp y x of
        Inl e \<Rightarrow> Inl e
      | Inr order \<Rightarrow>
          (case takeRun cmp (less_js order (Num 0)) y rest of
             Inl e \<Rightarrow> Inl e
           | Inr (run, later) \<Rightarrow>
               Inr (if less_js order (Num 0) then rev (x # y # run) else x # y # run, later)))"
| "countAndMakeRun cmp xs = Inr (xs, [])"

text \<open>
  BinaryInsertionSort: the place of the pivot in the sorted part is searched between
  \<open>left\<close> and \<open>right\<close>; a negative result against the middle element moves \<open>right\<close>
  to the middle, any other result moves \<open>left\<close> behind it.
\<close>

function binarySearch ::
  "('a \<Rightarrow> 'a \<Rightarrow> exn + jsnum) \<Rightarrow> 'a \<Rightarrow> 'a list \<Rightarrow> nat \<Rightarrow> nat \<Rightarrow> exn + nat" where
  "binarySearch cmp pivot work left right =
     (if left < right
      then (let mid = left + (right - left) div 2
            in case sortCompare cmp pivot (work ! mid) of
                 Inl e \<Rightarrow> Inl e
               | Inr order \<Rightarrow>
                   if less_js order (Num 0) then binarySearch cmp pivot work left mid
                   else binarySearch cmp pivot work (mid + 1) right)
      else Inr left)"
  by pat_completeness auto
termination
  by (relation "measure (\<lambda>(cmp, pivot, work, left, right). right - left)") auto

fun binaryInsertionSort ::
  "('a \<Rightarrow> 'a \<Rightarrow> exn + jsnum) \<Rightarrow> 'a list \<Rightarrow> 'a list \<Rightarrow> exn + 'a list" where
  "binaryInsertionSort cmp work [] = Inr work"
| "binaryInsertionSort cmp work (pivot # later) =
     (case binarySearch cmp pivot work 0 (length work) of
        Inl e \<Rightarrow> Inl e
      | Inr left \<Rightarrow> binaryInsertionSort cmp (take left work @ pivot # drop left work) later)"

text \<open>\<open>None\<close>: the array has 64 elements or more, where V8 merges runs; that part of
  TimSort is not modelled.\<close>

definition timSortShort :: "('a \<Rightarrow> 'a \<Rightarrow> exn + jsnum) \<Rightarrow> 'a list \<Rightarrow> (exn + 'a list) option" where
  "timSortShort cmp xs =
     (if 64 \<le> length xs then None
      else Some (case countAndMakeRun cmp xs of
                   Inl e \<Rightarrow> Inl e
                 | Inr (run, later) \<Rightarrow> binaryInsertionSort cmp run later))"

section \<open>The component state and the request cycle\<close>

text \<open>The one message the source ever stores in \<^verbatim>\<open>error\<close> (line 63).\<close>

datatype message = TimelineFetchFailed

record ui_state =
  prompt :: jsstring
  timelineEvents :: "json list"
  isLoading :: bool
  error :: "message option"
  selectedEvent :: "json option"

text \<open>
  What \<^verbatim>\<open>await ai.models.generateContent(...)\<close> gives: a rejection, or a response
  whose \<^verbatim>\<open>text\<close> is a string or \<^verbatim>\<open>undefined\<close>.
\<close>

datatype response = Rejected | Response "jsstring option"

text \<open>
  Lines 50 to 58. \<^verbatim>\<open>JSON.parse\<close> is the engine's and is a parameter: \<open>None\<close> is its
  SyntaxError. \<^verbatim>\<open>trim\<close> of \<^verbatim>\<open>undefined\<close> and \<^verbatim>\<open>sort\<close> of a value that is not
  an array are TypeErrors.
\<close>

definition decodeEvents :: "(jsstring \<Rightarrow> json option) \<Rightarrow> jsstring option \<Rightarrow> exn + json list" where
  "decodeEvents parse text = (case text of
       None \<Rightarrow> Inl TypeError
     | Some t \<Rightarrow> (case parse (trim t) of
           None \<Rightarrow> Inl SyntaxError
         | Some (JArray events) \<Rightarrow> sortedEvents events
         | Some _ \<Rightarrow> Inl TypeError))"

text \<open>
  \<^verbatim>\<open>fetchTimeline\<close>, from the call to the end of \<^verbatim>\<open>finally\<close>: the state it leaves
  and the topics it sent to the service.
\<close>

definition fetchTimeline ::
  "(jsstring \<Rightarrow> json option) \<Rightarrow> response \<Rightarrow> jsstring \<Rightarrow> ui_state \<Rightarrow> ui_state \<times> jsstring list" where
  "fetchTimeline parse resp userPrompt st =
     (let pending = st\<lparr>isLoading := True, error := None, timelineEvents := []\<rparr>;
          tried = (case resp of
              Rejected \<Rightarrow> Inl RequestError
            | Response text \<Rightarrow> decodeEvents parse text);
          settled = (case tried of
              Inl e \<Rightarrow> pending\<lparr>error := Some TimelineFetchFailed\<rparr>
            | Inr evs \<Rightarrow> pending\<lparr>timelineEvents := evs\<rparr>)
      in (settled\<lparr>isLoading := False\<rparr>, [userPrompt]))"

text \<open>\<^verbatim>\<open>handleSubmit\<close>: a string is truthy when it is not empty.\<close>

definition handleSubmit ::
  "(jsstring \<Rightarrow> json option) \<Rightarrow> response \<Rightarrow> ui_state \<Rightarrow> ui_state \<times> jsstring list" where
  "handleSubmit parse resp st =
     (if trim (prompt st) \<noteq> [] then fetchTimeline parse resp (prompt st) st else (st, []))"

section \<open>Events of the declared shape\<close>

definition field :: "json \<Rightarrow> string \<Rightarrow> json option" where
  "field e k = (case e of JObject kvs \<Rightarrow> map_of (rev kvs) (js k) | _ \<Rightarrow> None)"

definition isString :: "json option \<Rightarrow> bool" where
  "isString v = (case v of Some (JString s) \<Rightarrow> True | _ \<Rightarrow> False)"

definition isObject :: "json \<Rightarrow> bool" where
  "isObject e = (case e of JObject kvs \<Rightarrow> True | _ \<Rightarrow> False)"

text \<open>The interface \<^verbatim>\<open>TimelineEvent\<close>: \<^verbatim>\<open>year\<close> a string or a number, three strings,
  and \<^verbatim>\<open>link\<close> a string when present.\<close>

definition isTimelineEvent :: "json \<Rightarrow> bool" where
  "isTimelineEvent e =
     (isObject e
      \<and> (case field e ''year'' of Some (JString s) \<Rightarrow> True | Some (JNumber s) \<Rightarrow> True | _ \<Rightarrow> False)
      \<and> isString (field e ''title'')
      \<and> isString (field e ''description'')
      \<and> isString (field e ''details'')
      \<and> (field e ''link'' = None \<or> isString (field e ''link'')))"

definition timelineEvent :: "string \<Rightarrow> string \<Rightarrow> string \<Rightarrow> string \<Rightarrow> json" where
  "timelineEvent y t d ds =
     JObject [(js ''year'', JString (js y)), (js ''title'', JString (js t)),
              (js ''description'', JString (js d)), (js ''details'', JString (js ds))]"

text \<open>
  The \<^verbatim>\<open>responseSchema\<close> of the request (lines 33 to 46): an array of objects in which
  \<^verbatim>\<open>year\<close>, \<^verbatim>\<open>title\<close>, \<^verbatim>\<open>description\<close> and \<^verbatim>\<open>details\<close> are required strings and
  \<^verbatim>\<open>link\<close> is a string when present.
\<close>

definition matchesItemSchema :: "json \<Rightarrow> bool" where
  "matchesItemSchema e =
     (isObject e
      \<and> isString (field e ''year'')
      \<and> isString (field e ''title'')
      \<and> isString (field e ''description'')
      \<and> isString (field e ''details'')
      \<and> (field e ''link'' = None \<or> isString (field e ''link'')))"

definition matchesSchema :: "json \<Rightarrow> bool" where
  "matchesSchema v = (case v of JArray items \<Rightarrow> list_all matchesItemSchema items | _ \<Rightarrow> False)"

text \<open>An object that follows the schema but for members that are missing.\<close>

definition stringOrMissing :: "json option \<Rightarrow> bool" where
  "stringOrMissing v = (v = None \<or> isString v)"

definition matchesWhereDefined :: "json \<Rightarrow> bool" where
  "matchesWhereDefined e =
     (isObject e
      \<and> stringOrMissing (field e ''year'')
      \<and> stringOrMissing (field e ''title'')
      \<and> stringOrMissing (field e ''description'')
      \<and> stringOrMissing (field e ''details'')
      \<and> stringOrMissing (field e ''link''))"

text \<open>
  The string \<^verbatim>\<open>String(e.year)\<close> and the effective year of a value on which the
  conversion does not throw.
\<close>

definition yearString :: "json \<Rightarrow> jsstring" where
  "yearString e = (case String_of (field e ''year'') of Inl x \<Rightarrow> [] | Inr s \<Rightarrow> s)"

definition eventYear :: "json \<Rightarrow> jsnum" where
  "eventYear e = effectiveYear (yearString e)"

section \<open>Notions the properties are stated with\<close>

text \<open>A list in which no element is put strictly after its successor by the comparator.\<close>

fun settled :: "('a \<Rightarrow> 'a \<Rightarrow> exn + jsnum) \<Rightarrow> 'a list \<Rightarrow> bool" where
  "settled cmp [] = True"
| "settled cmp [x] = True"
| "settled cmp (x # y # ys) =
     ((case sortCompare cmp x y of Inl e \<Rightarrow> False | Inr v \<Rightarrow> \<not> less_js (Num 0) v)
      \<and> settled cmp (y # ys))"

text \<open>An object carrying the two members the scenario of the specification gives.\<close>

definition yearTitle :: "string \<Rightarrow> string \<Rightarrow> json" where
  "yearTitle y t = JObject [(js ''year'', JString (js y)), (js ''title'', JString (js t))]"

text \<open>
  Stand-ins for \<^verbatim>\<open>JSON.parse\<close> to instantiate the theorems with, which are stated for
  every parser. Each reads one document and rejects every other text: \<open>parseOne\<close> an
  array of one object that has a \<^verbatim>\<open>year\<close> only, \<open>parseNumbers\<close> an array of two
  numbers.
\<close>

definition yearOnlyText :: jsstring where
  \<open>yearOnlyText = js ''[{"year":"1392"}]''\<close>

definition yearOnly :: json where
  "yearOnly = JObject [(js ''year'', JString (js ''1392''))]"

definition parseOne :: "jsstring \<Rightarrow> json option" where
  "parseOne t = (if t = yearOnlyText then Some (JArray [yearOnly]) else None)"

definition numbersText :: jsstring where
  "numbersText = js ''[1,2]''"

definition numbers :: "json list" where
  "numbers = [JNumber (js ''1''), JNumber (js ''2'')]"

definition parseNumbers :: "jsstring \<Rightarrow> json option" where
  "parseNumbers t = (if t = numbersText then Some (JArray numbers) else None)"

definition idle :: ui_state where
  "idle = \<lparr>prompt = js ''Joseon'', timelineEvents = [], isLoading = False, error = None,
            selectedEvent = None\<rparr>"

section \<open>Facts about numbers\<close>

lemma roundMagnitude_zero: "roundMagnitude 0 = Num 0"
  by (simp add: roundMagnitude_def)

lemma roundMagnitude_pos:
  assumes "0 < m"
  shows "less_js (Num 0) (roundMagnitude m)"
proof (cases "m < 2 ^ 53")
  case True
  with assms show ?thesis by (simp add: roundMagnitude_def)
next
  case False
  define e where "e = nat (bitlen m - 53)"
  define q where "q = m div 2 ^ e"
  define q' where "q' = (if 2 ^ (e - 1) < m mod 2 ^ e \<or> (m mod 2 ^ e = 2 ^ (e - 1) \<and> odd q) then q + 1 else q)"
  have b: "(2::int) ^ nat (bitlen m - 1) \<le> m" using bitlen_bounds [OF assms] by simp
  have "e \<le> nat (bitlen m - 1)" by (simp add: e_def)
  then have p: "(2::int) ^ e \<le> 2 ^ nat (bitlen m - 1)" by (rule power_increasing) simp
  from p b have "(2::int) ^ e \<le> m" by (rule order_trans)
  then have "0 < q" unfolding q_def by (simp add: pos_imp_zdiv_pos_iff)
  then have "0 < q'" by (simp add: q'_def)
  then have pos: "0 < q' * 2 ^ e" by simp
  have "roundMagnitude m = (if 2 ^ 1024 \<le> q' * 2 ^ e then Infinity else Num (q' * 2 ^ e))"
    using False unfolding roundMagnitude_def Let_def q'_def q_def e_def by simp
  with pos show ?thesis by simp
qed


lemma roundMagnitude_not_NaN: "roundMagnitude m \<noteq> NaN"
  by (simp add: roundMagnitude_def Let_def)

lemma neg_not_NaN: "x \<noteq> NaN \<Longrightarrow> neg x \<noteq> NaN"
  by (cases x) simp_all

lemma toDouble_not_NaN: "toDouble d \<noteq> NaN"
  by (simp add: toDouble_def roundMagnitude_not_NaN neg_not_NaN)

lemma neg_of_positive: "less_js (Num 0) x \<Longrightarrow> \<not> less_js (Num 0) (neg x)"
  by (cases x) simp_all

lemma toDouble_positive: "less_js (Num 0) (toDouble d) = (0 < d)"
proof (cases "d < 0")
  case True
  then have "less_js (Num 0) (roundMagnitude (- d))" by (simp add: roundMagnitude_pos)
  then have "\<not> less_js (Num 0) (neg (roundMagnitude (- d)))" by (rule neg_of_positive)
  with True show ?thesis by (simp add: toDouble_def)
next
  case False
  show ?thesis
  proof (cases "d = 0")
    case True
    then show ?thesis by (simp add: toDouble_def roundMagnitude_zero)
  next
    case False
    with \<open>\<not> d < 0\<close> have "0 < d" by simp
    then show ?thesis by (simp add: toDouble_def roundMagnitude_pos)
  qed
qed

lemma positive_difference:
  "less_js (Num 0) (if minus_js a b = NaN then Num 0 else minus_js a b) = less_js b a"
proof (cases a)
  case NaN
  then show ?thesis by (cases b) simp_all
next
  case (Num m)
  then show ?thesis
    by (cases b) (simp_all add: toDouble_not_NaN toDouble_positive)
next
  case Infinity
  then show ?thesis by (cases b) simp_all
next
  case NegInfinity
  then show ?thesis by (cases b) simp_all
qed

lemma less_js_irrefl: "\<not> less_js a a"
  by (cases a) simp_all

lemma less_js_asym: "less_js a b \<Longrightarrow> \<not> less_js b a"
  by (cases a; cases b) simp_all

lemma less_js_trans: "less_js a b \<Longrightarrow> less_js b c \<Longrightarrow> less_js a c"
  by (cases a; cases b; cases c) simp_all

lemma not_less_js: "a \<noteq> NaN \<Longrightarrow> b \<noteq> NaN \<Longrightarrow> \<not> less_js b a \<Longrightarrow> le_js a b"
  by (cases a; cases b) (auto simp: le_js_def)

lemma le_js_trans: "le_js a b \<Longrightarrow> le_js b c \<Longrightarrow> le_js a c"
  unfolding le_js_def using less_js_trans by blast

subsection \<open>The comparator\<close>

lemma getProp_field: "a \<noteq> JNull \<Longrightarrow> getProp a (js ''year'') = Inr (field a ''year'')"
  by (cases a) (simp_all add: field_def)

lemma yearOf_Inr: "yearOf a = Inr y \<Longrightarrow> y = eventYear a"
  by (cases "a = JNull")
     (auto simp: yearOf_def getProp_field eventYear_def yearString_def split: sum.splits)

lemma yearOf_isTimelineEvent: "isTimelineEvent a \<Longrightarrow> yearOf a = Inr (eventYear a)"
  by (cases a)
     (auto simp: isTimelineEvent_def isObject_def field_def yearOf_def String_of_def
        eventYear_def yearString_def split: option.splits json.splits)

lemma compareEvents_Inr:
  "compareEvents a b = Inr r \<Longrightarrow> r = minus_js (eventYear a) (eventYear b)"
  by (auto simp: compareEvents_def split: sum.splits dest!: yearOf_Inr)

lemma compareEvents_readable:
  "yearOf a = Inr (eventYear a) \<Longrightarrow> yearOf b = Inr (eventYear b) \<Longrightarrow>
   compareEvents a b = Inr (minus_js (eventYear a) (eventYear b))"
  by (simp add: compareEvents_def)

lemma sortCompare_positive:
  "sortCompare compareEvents x y = Inr v \<Longrightarrow>
   less_js (Num 0) v = less_js (eventYear y) (eventYear x)"
proof -
  assume "sortCompare compareEvents x y = Inr v"
  then obtain r where r: "compareEvents x y = Inr r"
    and v: "v = (if r = NaN then Num 0 else r)"
    by (auto simp: sortCompare_def split: sum.splits)
  from r have rr: "r = minus_js (eventYear x) (eventYear y)" by (rule compareEvents_Inr)
  show ?thesis unfolding v rr by (rule positive_difference)
qed

section \<open>Facts about the sort\<close>

lemma insert_by_mset:
  "insert_by cmp x ys = Inr zs \<Longrightarrow> mset zs = add_mset x (mset ys)"
  by (induction ys arbitrary: zs) (auto split: sum.splits if_splits)

lemma sort_by_mset: "sort_by cmp xs = Inr ys \<Longrightarrow> mset ys = mset xs"
  by (induction xs arbitrary: ys) (auto split: sum.splits dest: insert_by_mset)

lemma insert_by_total:
  "\<forall>y\<in>set ys. \<exists>r. cmp x y = Inr r \<Longrightarrow> \<exists>zs. insert_by cmp x ys = Inr zs"
proof (induction ys)
  case Nil
  show ?case by simp
next
  case (Cons y ys)
  then obtain r where r: "cmp x y = Inr r" by auto
  from Cons obtain zs where zs: "insert_by cmp x ys = Inr zs" by auto
  show ?case using r zs by (simp add: sortCompare_def)
qed

lemma sort_by_total:
  "\<forall>a\<in>set xs. \<forall>b\<in>set xs. \<exists>r. cmp a b = Inr r \<Longrightarrow> \<exists>ys. sort_by cmp xs = Inr ys"
proof (induction xs)
  case Nil
  show ?case by simp
next
  case (Cons x xs)
  then obtain ys where ys: "sort_by cmp xs = Inr ys" by auto
  have "set ys = set xs" using sort_by_mset [OF ys] by (metis set_mset_mset)
  with Cons.prems have "\<forall>y\<in>set ys. \<exists>r. cmp x y = Inr r" by simp
  then have "\<exists>zs. insert_by cmp x ys = Inr zs" by (rule insert_by_total [of ys cmp x])
  with ys show ?case by simp
qed

lemma sortedEvents_total:
  "\<forall>e\<in>set xs. yearOf e = Inr (eventYear e) \<Longrightarrow> \<exists>ys. sortedEvents xs = Inr ys"
  unfolding sortedEvents_def
  by (rule sort_by_total) (metis compareEvents_readable)

lemma events_readable:
  "\<forall>e\<in>set xs. isTimelineEvent e \<Longrightarrow> \<forall>e\<in>set xs. yearOf e = Inr (eventYear e)"
  by (simp add: yearOf_isTimelineEvent)

lemma same_year_stays:
  "sortCompare compareEvents x y = Inr v \<Longrightarrow> eventYear x = eventYear y \<Longrightarrow>
   \<not> less_js (Num 0) v"
  by (simp add: sortCompare_positive less_js_irrefl)

lemma insert_by_filter:
  "insert_by compareEvents x ys = Inr zs \<Longrightarrow>
   filter (\<lambda>e. eventYear e = k) zs = filter (\<lambda>e. eventYear e = k) (x # ys)"
proof (induction ys arbitrary: zs)
  case Nil
  then show ?case by auto
next
  case (Cons y ys)
  show ?case
  proof (cases "sortCompare compareEvents x y")
    case (Inl e)
    with Cons.prems show ?thesis by simp
  next
    case (Inr v)
    show ?thesis
    proof (cases "less_js (Num 0) v")
      case False
      with Inr Cons.prems show ?thesis by auto
    next
      case True
      with Inr Cons.prems obtain zs' where
        zs': "insert_by compareEvents x ys = Inr zs'" and zs: "zs = y # zs'"
        by (auto split: sum.splits)
      have differ: "\<not> (eventYear x = k \<and> eventYear y = k)"
        using same_year_stays [OF Inr] True by auto
      from Cons.IH [OF zs'] zs differ show ?thesis by auto
    qed
  qed
qed

lemma sort_by_filter:
  "sort_by compareEvents xs = Inr ys \<Longrightarrow>
   filter (\<lambda>e. eventYear e = k) ys = filter (\<lambda>e. eventYear e = k) xs"
proof (induction xs arbitrary: ys)
  case Nil
  then show ?case by simp
next
  case (Cons x xs)
  then obtain ys' where ys': "sort_by compareEvents xs = Inr ys'"
    and ins: "insert_by compareEvents x ys' = Inr ys"
    by (auto split: sum.splits)
  from insert_by_filter [OF ins, of k] Cons.IH [OF ys'] show ?case by simp
qed

lemma sort_by_settled: "settled cmp xs \<Longrightarrow> sort_by cmp xs = Inr xs"
  by (induction cmp xs rule: settled.induct) (auto split: sum.splits)

lemma sortCompare_flip:
  "sortCompare compareEvents x y = Inr v \<Longrightarrow> less_js (Num 0) v \<Longrightarrow>
   \<exists>w. sortCompare compareEvents y x = Inr w \<and> \<not> less_js (Num 0) w"
proof -
  assume v: "sortCompare compareEvents x y = Inr v" and pos: "less_js (Num 0) v"
  from v obtain r where r: "compareEvents x y = Inr r"
    by (auto simp: sortCompare_def split: sum.splits)
  then obtain ya yb where "yearOf x = Inr ya" "yearOf y = Inr yb"
    by (auto simp: compareEvents_def split: sum.splits)
  then obtain w where w: "sortCompare compareEvents y x = Inr w"
    by (auto simp: compareEvents_def sortCompare_def)
  from pos v have "less_js (eventYear y) (eventYear x)" by (simp add: sortCompare_positive)
  then have "\<not> less_js (eventYear x) (eventYear y)" by (rule less_js_asym)
  with w have "\<not> less_js (Num 0) w" by (simp add: sortCompare_positive)
  with w show ?thesis by blast
qed

lemma insert_by_head:
  "insert_by cmp x ys = Inr zs \<Longrightarrow> \<exists>zs'. zs = x # zs' \<or> (\<exists>y ys'. ys = y # ys' \<and> zs = y # zs')"
  by (cases ys) (auto split: sum.splits if_splits)

lemma settled_tail: "settled cmp (x # ys) \<Longrightarrow> settled cmp ys"
  by (cases ys) simp_all

lemma insert_by_settled:
  "insert_by compareEvents x ys = Inr zs \<Longrightarrow> settled compareEvents ys \<Longrightarrow>
   settled compareEvents zs"
proof (induction ys arbitrary: zs)
  case Nil
  then show ?case by auto
next
  case (Cons y ys)
  show ?case
  proof (cases "sortCompare compareEvents x y")
    case (Inl e)
    with Cons.prems show ?thesis by simp
  next
    case (Inr v)
    show ?thesis
    proof (cases "less_js (Num 0) v")
      case False
      with Inr Cons.prems show ?thesis by auto
    next
      case True
      with Inr Cons.prems obtain zs' where
        zs': "insert_by compareEvents x ys = Inr zs'" and zs: "zs = y # zs'"
        by (auto split: sum.splits)
      have tail: "settled compareEvents ys" using Cons.prems(2) by (rule settled_tail)
      have st: "settled compareEvents zs'" by (rule Cons.IH [OF zs' tail])
      from sortCompare_flip [OF Inr True] obtain w where
        w: "sortCompare compareEvents y x = Inr w" "\<not> less_js (Num 0) w" by auto
      from insert_by_head [OF zs'] obtain t where
        "zs' = x # t \<or> (\<exists>y' ys'. ys = y' # ys' \<and> zs' = y' # t)" by auto
      then show ?thesis
      proof
        assume "zs' = x # t"
        with st w zs show ?thesis by simp
      next
        assume "\<exists>y' ys'. ys = y' # ys' \<and> zs' = y' # t"
        then obtain y' ys' where "ys = y' # ys'" "zs' = y' # t" by auto
        with st zs Cons.prems(2) show ?thesis by simp
      qed
    qed
  qed
qed

lemma sort_by_gives_settled:
  "sort_by compareEvents xs = Inr ys \<Longrightarrow> settled compareEvents ys"
proof (induction xs arbitrary: ys)
  case Nil
  then show ?case by simp
next
  case (Cons x xs)
  then obtain ys' where ys': "sort_by compareEvents xs = Inr ys'"
    and ins: "insert_by compareEvents x ys' = Inr ys"
    by (auto split: sum.splits)
  from insert_by_settled [OF ins Cons.IH [OF ys']] show ?case .
qed

lemma parseInt_digits_not_NaN:
  "replace_nondigits s \<noteq> [] \<Longrightarrow> parseInt (replace_nondigits s) \<noteq> NaN"
proof -
  assume ne: "replace_nondigits s \<noteq> []"
  have tw: "takeWhile isDigit (replace_nondigits s) = replace_nondigits s"
    by (simp add: replace_nondigits_def)
  show ?thesis unfolding parseInt_def tw using ne by (simp add: Let_def toDouble_not_NaN)
qed

lemma effectiveYear_digits:
  "replace_nondigits s \<noteq> [] \<Longrightarrow> effectiveYear s \<noteq> NaN"
  by (simp add: effectiveYear_def parseInt_digits_not_NaN neg_not_NaN)

lemma effectiveYear_digitless: "replace_nondigits s = [] \<Longrightarrow> effectiveYear s = NaN"
  by (simp add: effectiveYear_def parseInt_def)

lemma settled_le_head:
  "settled compareEvents (x # ys) \<Longrightarrow> \<forall>e\<in>set (x # ys). eventYear e \<noteq> NaN \<Longrightarrow>
   \<forall>y\<in>set ys. le_js (eventYear x) (eventYear y)"
proof (induction ys arbitrary: x)
  case Nil
  show ?case by simp
next
  case (Cons y ys)
  from Cons.prems(2) have n: "eventYear x \<noteq> NaN" "eventYear y \<noteq> NaN" by auto
  from Cons.prems(1) obtain v where v: "sortCompare compareEvents x y = Inr v"
    "\<not> less_js (Num 0) v" and st: "settled compareEvents (y # ys)"
    by (auto split: sum.splits)
  from v have "\<not> less_js (eventYear y) (eventYear x)" by (simp add: sortCompare_positive)
  with n have xy: "le_js (eventYear x) (eventYear y)" by (simp add: not_less_js)
  from Cons.prems(2) have "\<forall>e\<in>set (y # ys). eventYear e \<noteq> NaN" by simp
  from Cons.IH [OF st this] have tl: "\<forall>z\<in>set ys. le_js (eventYear y) (eventYear z)" .
  show ?case
  proof
    fix z assume "z \<in> set (y # ys)"
    then consider "z = y" | "z \<in> set ys" by auto
    then show "le_js (eventYear x) (eventYear z)"
    proof cases
      case 1
      with xy show ?thesis by simp
    next
      case 2
      with tl have "le_js (eventYear y) (eventYear z)" by simp
      with xy show ?thesis by (rule le_js_trans)
    qed
  qed
qed

lemma settled_sorted:
  "settled compareEvents ys \<Longrightarrow> \<forall>e\<in>set ys. eventYear e \<noteq> NaN \<Longrightarrow>
   sorted_wrt (\<lambda>a b. le_js (eventYear a) (eventYear b)) ys"
proof (induction ys)
  case Nil
  show ?case by simp
next
  case (Cons x ys)
  from settled_le_head [OF Cons.prems] have "\<forall>y\<in>set ys. le_js (eventYear x) (eventYear y)" .
  moreover from Cons have "sorted_wrt (\<lambda>a b. le_js (eventYear a) (eventYear b)) ys"
    by (simp add: settled_tail)
  ultimately show ?case by simp
qed

text \<open>
  Where every year string has a digit, no effective year is \<^verbatim>\<open>NaN\<close>, the comparator
  is a consistent ordering, and the fixed result ascends and keeps the order of the events
  of one year.
\<close>

lemma ascending_when_years_have_digits:
  assumes "\<forall>e\<in>set xs. isTimelineEvent e \<and> replace_nondigits (yearString e) \<noteq> []"
  shows "\<exists>ys. sortedEvents xs = Inr ys
     \<and> sorted_wrt (\<lambda>a b. le_js (eventYear a) (eventYear b)) ys"
proof -
  from assms have "\<forall>e\<in>set xs. yearOf e = Inr (eventYear e)"
    by (simp add: yearOf_isTimelineEvent)
  then obtain ys where ys: "sortedEvents xs = Inr ys" using sortedEvents_total by blast
  then have s: "sort_by compareEvents xs = Inr ys" by (simp add: sortedEvents_def)
  then have "set ys = set xs" by (metis sort_by_mset set_mset_mset)
  with assms have "\<forall>e\<in>set ys. eventYear e \<noteq> NaN"
    by (simp add: eventYear_def effectiveYear_digits)
  with sort_by_gives_settled [OF s]
  have "sorted_wrt (\<lambda>a b. le_js (eventYear a) (eventYear b)) ys" by (rule settled_sorted)
  with ys show ?thesis by blast
qed

lemma stable_when_years_have_digits:
  assumes "\<forall>e\<in>set xs. isTimelineEvent e \<and> replace_nondigits (yearString e) \<noteq> []"
  shows "\<exists>ys. sortedEvents xs = Inr ys
     \<and> (\<forall>k. filter (\<lambda>e. eventYear e = k) ys = filter (\<lambda>e. eventYear e = k) xs)"
proof -
  from assms have "\<forall>e\<in>set xs. yearOf e = Inr (eventYear e)"
    by (simp add: yearOf_isTimelineEvent)
  then obtain ys where ys: "sortedEvents xs = Inr ys" using sortedEvents_total by blast
  then have "sort_by compareEvents xs = Inr ys" by (simp add: sortedEvents_def)
  then have "\<forall>k. filter (\<lambda>e. eventYear e = k) ys = filter (\<lambda>e. eventYear e = k) xs"
    by (simp add: sort_by_filter)
  with ys show ?thesis by blast
qed

subsection \<open>The two sorts on a list that is in order\<close>

lemma neg_of_negative_magnitude: "less_js (Num 0) x \<Longrightarrow> less_js (neg x) (Num 0)"
  by (cases x) simp_all

lemma roundMagnitude_not_negative: "0 \<le> m \<Longrightarrow> \<not> less_js (roundMagnitude m) (Num 0)"
proof -
  assume "0 \<le> m"
  then consider "m = 0" | "0 < m" by linarith
  then show ?thesis
  proof cases
    case 1
    then show ?thesis by (simp add: roundMagnitude_zero)
  next
    case 2
    then have "less_js (Num 0) (roundMagnitude m)" by (rule roundMagnitude_pos)
    then show ?thesis by (rule less_js_asym)
  qed
qed

lemma toDouble_negative: "less_js (toDouble d) (Num 0) = (d < 0)"
proof (cases "d < 0")
  case True
  then have "less_js (Num 0) (roundMagnitude (- d))" by (simp add: roundMagnitude_pos)
  then have "less_js (neg (roundMagnitude (- d))) (Num 0)" by (rule neg_of_negative_magnitude)
  with True show ?thesis by (simp add: toDouble_def)
next
  case False
  then show ?thesis by (simp add: toDouble_def roundMagnitude_not_negative)
qed

lemma negative_difference:
  "less_js (if minus_js a b = NaN then Num 0 else minus_js a b) (Num 0) = less_js a b"
proof (cases a)
  case NaN
  then show ?thesis by (cases b) simp_all
next
  case (Num m)
  then show ?thesis
    by (cases b) (simp_all add: toDouble_not_NaN toDouble_negative)
next
  case Infinity
  then show ?thesis by (cases b) simp_all
next
  case NegInfinity
  then show ?thesis by (cases b) simp_all
qed

lemma sortCompare_negative:
  "sortCompare compareEvents x y = Inr v \<Longrightarrow>
   less_js v (Num 0) = less_js (eventYear x) (eventYear y)"
proof -
  assume "sortCompare compareEvents x y = Inr v"
  then obtain r where r: "compareEvents x y = Inr r"
    and v: "v = (if r = NaN then Num 0 else r)"
    by (auto simp: sortCompare_def split: sum.splits)
  from r have rr: "r = minus_js (eventYear x) (eventYear y)" by (rule compareEvents_Inr)
  show ?thesis unfolding v rr by (rule negative_difference)
qed

lemma sortCompare_swap:
  "sortCompare compareEvents x y = Inr v \<Longrightarrow> \<exists>w. sortCompare compareEvents y x = Inr w"
  by (auto simp: compareEvents_def sortCompare_def split: sum.splits)

lemma takeRun_settled:
  "settled compareEvents (p # rest) \<Longrightarrow> takeRun compareEvents False p rest = Inr (rest, [])"
proof (induction rest arbitrary: p)
  case Nil
  show ?case by simp
next
  case (Cons c rest)
  from Cons.prems obtain v where v: "sortCompare compareEvents p c = Inr v"
    "\<not> less_js (Num 0) v" and st: "settled compareEvents (c # rest)"
    by (auto split: sum.splits)
  from sortCompare_swap [OF v(1)] obtain w where w: "sortCompare compareEvents c p = Inr w"
    by blast
  from v have "\<not> less_js (eventYear c) (eventYear p)" by (simp add: sortCompare_positive)
  with w have "\<not> less_js w (Num 0)" by (simp add: sortCompare_negative)
  with w Cons.IH [OF st] show ?case by simp
qed

lemma countAndMakeRun_settled:
  "settled compareEvents xs \<Longrightarrow> countAndMakeRun compareEvents xs = Inr (xs, [])"
proof (cases xs)
  case Nil
  then show ?thesis by simp
next
  case (Cons x ys)
  assume st: "settled compareEvents xs"
  show ?thesis
  proof (cases ys)
    case Nil
    with Cons show ?thesis by simp
  next
    case (Cons y rest)
    with \<open>xs = x # ys\<close> st obtain v where v: "sortCompare compareEvents x y = Inr v"
      "\<not> less_js (Num 0) v" and st': "settled compareEvents (y # rest)"
      by (auto split: sum.splits)
    from sortCompare_swap [OF v(1)] obtain w where w: "sortCompare compareEvents y x = Inr w"
      by blast
    from v have "\<not> less_js (eventYear y) (eventYear x)" by (simp add: sortCompare_positive)
    with w have "\<not> less_js w (Num 0)" by (simp add: sortCompare_negative)
    with w takeRun_settled [OF st'] Cons \<open>xs = x # ys\<close> show ?thesis by simp
  qed
qed

lemma timSortShort_settled:
  "settled compareEvents xs \<Longrightarrow> length xs < 64 \<Longrightarrow>
   timSortShort compareEvents xs = Some (Inr xs)"
  by (simp add: timSortShort_def countAndMakeRun_settled)

section \<open>Facts about the instances\<close>

text \<open>On the lists the theorems below evaluate the fixed sort at, the sort of V8 gives the
  same.\<close>

lemma timSortShort_instances:
  "timSortShort compareEvents
     [timelineEvent ''5'' ''a'' ''d'' ''x'', timelineEvent ''unknown'' ''b'' ''d'' ''x'',
      timelineEvent ''3'' ''c'' ''d'' ''x'']
   = Some (sortedEvents
     [timelineEvent ''5'' ''a'' ''d'' ''x'', timelineEvent ''unknown'' ''b'' ''d'' ''x'',
      timelineEvent ''3'' ''c'' ''d'' ''x''])"
  "timSortShort compareEvents
     [timelineEvent ''5'' ''a'' ''d'' ''x'', timelineEvent ''unknown'' ''b'' ''d'' ''x'']
   = Some (sortedEvents
     [timelineEvent ''5'' ''a'' ''d'' ''x'', timelineEvent ''unknown'' ''b'' ''d'' ''x''])"
  "timSortShort compareEvents
     [yearTitle ''1392'' ''Joseon founded'', yearTitle ''BC 108'' ''Gojoseon falls'',
      yearTitle ''935'' ''Unified Silla ends'']
   = Some (sortedEvents
     [yearTitle ''1392'' ''Joseon founded'', yearTitle ''BC 108'' ''Gojoseon falls'',
      yearTitle ''935'' ''Unified Silla ends''])"
  by code_simp+

lemma matchesWhereDefined_readable:
  "matchesWhereDefined a \<Longrightarrow> yearOf a = Inr (eventYear a)"
  by (cases a)
     (auto simp: matchesWhereDefined_def stringOrMissing_def isString_def isObject_def
        field_def yearOf_def String_of_def eventYear_def yearString_def
        split: option.splits json.splits)

lemma dropWhile_all: "\<forall>c\<in>set s. P c \<Longrightarrow> dropWhile P s = []"
  by (induction s) simp_all

lemma trim_blank: "\<forall>c\<in>set s. isWhiteSpace c \<Longrightarrow> trim s = []"
  by (simp add: trim_def dropWhile_all)

lemma trim_not_json: "trim (js ''not json'') = js ''not json''"
  by (simp add: trim_def js_def isWhiteSpace_def)

lemma trim_yearOnlyText: "trim yearOnlyText = yearOnlyText"
  by (simp add: trim_def js_def isWhiteSpace_def yearOnlyText_def)

lemma trim_numbersText: "trim numbersText = numbersText"
  by (simp add: trim_def js_def isWhiteSpace_def numbersText_def)

lemma parseOne_not_json: "parseOne (trim (js ''not json'')) = None"
  by (simp add: trim_not_json) (simp add: parseOne_def yearOnlyText_def js_def)

lemma parseOne_yearOnlyText: "parseOne (trim yearOnlyText) = Some (JArray [yearOnly])"
  by (simp add: trim_yearOnlyText parseOne_def)

lemma parseNumbers_numbersText: "parseNumbers (trim numbersText) = Some (JArray numbers)"
  by (simp add: trim_numbersText parseNumbers_def)

lemma yearOnly_shape: "isObject yearOnly \<and> field yearOnly ''title'' = None"
  by (simp add: isObject_def yearOnly_def field_def js_def)

lemma yearOnly_matchesWhereDefined: "matchesWhereDefined yearOnly"
  by code_simp

lemma numbers_off_schema: "\<not> matchesSchema (JArray numbers)"
  by code_simp

lemma sortedEvents_numbers: "sortedEvents numbers = Inr numbers"
  by code_simp

section \<open>The Timeline Sorter\<close>

text \<open>
  Claim C1 (ascending order). The claim: whenever two events of the input have effective
  years \<open>y1 \<le> y2\<close>, the output has the \<open>y1\<close> event no later than the \<open>y2\<close> event. It
  holds where every year string has a digit (\<open>ascending_when_years_have_digits\<close>). The
  source does not do so on the list of the years \<^verbatim>\<open>"5"\<close>, \<^verbatim>\<open>"unknown"\<close>, \<^verbatim>\<open>"3"\<close>: the
  year without a digit parses to \<^verbatim>\<open>NaN\<close>, the comparator returns \<^verbatim>\<open>NaN\<close> against both
  neighbours, the sort reads that as a tie, and the list is returned as it came, the event
  of year 3 after the event of year 5.
\<close>

theorem unsorted_around_digitless_year:
  "sortedEvents [timelineEvent ''5'' ''a'' ''d'' ''x'', timelineEvent ''unknown'' ''b'' ''d'' ''x'',
                 timelineEvent ''3'' ''c'' ''d'' ''x'']
     = Inr [timelineEvent ''5'' ''a'' ''d'' ''x'', timelineEvent ''unknown'' ''b'' ''d'' ''x'',
            timelineEvent ''3'' ''c'' ''d'' ''x'']
   \<and> eventYear (timelineEvent ''3'' ''c'' ''d'' ''x'') = Num 3
   \<and> eventYear (timelineEvent ''5'' ''a'' ''d'' ''x'') = Num 5"
  by code_simp

text \<open>
  Claim C3 (pure reordering). For every list of TimelineEvent values the sorter returns a
  list, of the same length and with the same multiset of events as the input.
\<close>

theorem sorter_permutes:
  "\<forall>e\<in>set xs. isTimelineEvent e \<Longrightarrow>
   \<exists>ys. sortedEvents xs = Inr ys \<and> length ys = length xs \<and> mset ys = mset xs"
proof -
  assume "\<forall>e\<in>set xs. isTimelineEvent e"
  then have "\<forall>e\<in>set xs. yearOf e = Inr (eventYear e)" by (rule events_readable)
  then obtain ys where ys: "sortedEvents xs = Inr ys" using sortedEvents_total by blast
  then have m: "mset ys = mset xs" unfolding sortedEvents_def by (rule sort_by_mset)
  then have "length ys = length xs" by (rule mset_eq_length)
  with ys m show ?thesis by simp
qed

theorem sorter_permutes_witness:
  "isTimelineEvent (timelineEvent ''1392'' ''Joseon founded'' ''d'' ''x'')
   \<and> isTimelineEvent (timelineEvent ''BC 108'' ''Gojoseon falls'' ''d'' ''x'')
   \<and> (\<exists>ys. sortedEvents [timelineEvent ''1392'' ''Joseon founded'' ''d'' ''x'',
                          timelineEvent ''BC 108'' ''Gojoseon falls'' ''d'' ''x''] = Inr ys
          \<and> length ys = length [timelineEvent ''1392'' ''Joseon founded'' ''d'' ''x'',
                                    timelineEvent ''BC 108'' ''Gojoseon falls'' ''d'' ''x'']
          \<and> mset ys = mset [timelineEvent ''1392'' ''Joseon founded'' ''d'' ''x'',
                            timelineEvent ''BC 108'' ''Gojoseon falls'' ''d'' ''x''])"
proof -
  have a: "isTimelineEvent (timelineEvent ''1392'' ''Joseon founded'' ''d'' ''x'')"
    by code_simp
  have b: "isTimelineEvent (timelineEvent ''BC 108'' ''Gojoseon falls'' ''d'' ''x'')"
    by code_simp
  from a b have "\<forall>e\<in>set [timelineEvent ''1392'' ''Joseon founded'' ''d'' ''x'',
      timelineEvent ''BC 108'' ''Gojoseon falls'' ''d'' ''x'']. isTimelineEvent e"
    by simp
  from sorter_permutes [OF this] a b show ?thesis by blast
qed

text \<open>
  Claim C10 (scenario). The list of the events of 1392, BC 108 and 935 is returned in the
  order BC 108, 935, 1392.
\<close>

theorem scenario_order:
  "sortedEvents [yearTitle ''1392'' ''Joseon founded'', yearTitle ''BC 108'' ''Gojoseon falls'',
                 yearTitle ''935'' ''Unified Silla ends'']
   = Inr [yearTitle ''BC 108'' ''Gojoseon falls'', yearTitle ''935'' ''Unified Silla ends'',
          yearTitle ''1392'' ''Joseon founded'']"
  by code_simp

text \<open>
  Claim C7 (stability). The claim: events of equal effective year keep their input order,
  for every input list. It holds where every year string has a digit
  (\<open>stable_when_years_have_digits\<close>). With a year without a digit the comparator is no
  consistent ordering, and the sort of V8 does not keep the order: of the seven events of
  the years 1, 2, 9, \<^verbatim>\<open>"unknown"\<close>, 5, 0, 5 it takes the first five as a run, and the
  binary search for the last event, after a negative result against 9, looks only at the
  part in front of 9, so that the second event of year 5 ends in front of the first.
\<close>

theorem unstable_around_digitless_year:
  "timSortShort compareEvents
     [timelineEvent ''1'' ''a'' ''d'' ''x'', timelineEvent ''2'' ''b'' ''d'' ''x'',
      timelineEvent ''9'' ''c'' ''d'' ''x'', timelineEvent ''unknown'' ''u'' ''d'' ''x'',
      timelineEvent ''5'' ''first'' ''d'' ''x'', timelineEvent ''0'' ''z'' ''d'' ''x'',
      timelineEvent ''5'' ''second'' ''d'' ''x'']
   = Some (Inr
     [timelineEvent ''0'' ''z'' ''d'' ''x'', timelineEvent ''1'' ''a'' ''d'' ''x'',
      timelineEvent ''2'' ''b'' ''d'' ''x'', timelineEvent ''5'' ''second'' ''d'' ''x'',
      timelineEvent ''9'' ''c'' ''d'' ''x'', timelineEvent ''unknown'' ''u'' ''d'' ''x'',
      timelineEvent ''5'' ''first'' ''d'' ''x''])
   \<and> eventYear (timelineEvent ''5'' ''first'' ''d'' ''x'') = Num 5
   \<and> eventYear (timelineEvent ''5'' ''second'' ''d'' ''x'') = Num 5"
  by code_simp

text \<open>
  Claim C8 (idempotence). A list that is in the order the sorter leaves, no event put by
  the comparator strictly after its successor, is returned by the sorter as it is, element
  by element: by the sort the language fixes, and by the sort of V8 on its short arrays.
\<close>

theorem sorted_list_is_returned:
  "settled compareEvents xs \<Longrightarrow>
   sortedEvents xs = Inr xs
   \<and> (length xs < 64 \<longrightarrow> timSortShort compareEvents xs = Some (Inr xs))"
  by (simp add: sortedEvents_def sort_by_settled timSortShort_settled)

theorem sorted_list_is_returned_witness:
  "settled compareEvents
     [timelineEvent ''BC 108'' ''Gojoseon falls'' ''d'' ''x'',
      timelineEvent ''935'' ''Unified Silla ends'' ''d'' ''x'',
      timelineEvent ''unknown'' ''undated'' ''d'' ''x'',
      timelineEvent ''1392'' ''Joseon founded'' ''d'' ''x'']
   \<and> sortedEvents
     [timelineEvent ''BC 108'' ''Gojoseon falls'' ''d'' ''x'',
      timelineEvent ''935'' ''Unified Silla ends'' ''d'' ''x'',
      timelineEvent ''unknown'' ''undated'' ''d'' ''x'',
      timelineEvent ''1392'' ''Joseon founded'' ''d'' ''x'']
   = Inr
     [timelineEvent ''BC 108'' ''Gojoseon falls'' ''d'' ''x'',
      timelineEvent ''935'' ''Unified Silla ends'' ''d'' ''x'',
      timelineEvent ''unknown'' ''undated'' ''d'' ''x'',
      timelineEvent ''1392'' ''Joseon founded'' ''d'' ''x'']
   \<and> timSortShort compareEvents
     [timelineEvent ''BC 108'' ''Gojoseon falls'' ''d'' ''x'',
      timelineEvent ''935'' ''Unified Silla ends'' ''d'' ''x'',
      timelineEvent ''unknown'' ''undated'' ''d'' ''x'',
      timelineEvent ''1392'' ''Joseon founded'' ''d'' ''x'']
   = Some (Inr
     [timelineEvent ''BC 108'' ''Gojoseon falls'' ''d'' ''x'',
      timelineEvent ''935'' ''Unified Silla ends'' ''d'' ''x'',
      timelineEvent ''unknown'' ''undated'' ''d'' ''x'',
      timelineEvent ''1392'' ''Joseon founded'' ''d'' ''x''])"
proof -
  have h: "settled compareEvents
     [timelineEvent ''BC 108'' ''Gojoseon falls'' ''d'' ''x'',
      timelineEvent ''935'' ''Unified Silla ends'' ''d'' ''x'',
      timelineEvent ''unknown'' ''undated'' ''d'' ''x'',
      timelineEvent ''1392'' ''Joseon founded'' ''d'' ''x'']"
    by code_simp
  from sorted_list_is_returned [OF h] h show ?thesis by simp
qed

text \<open>
  Claim C2 (a year without digits). The claim gives such a year the effective value 0 and
  a place among the zero-valued entries. In the source \<^verbatim>\<open>parseInt('')\<close> is \<^verbatim>\<open>NaN\<close>:
  the year \<^verbatim>\<open>"unknown"\<close> is not 0, and after the year \<^verbatim>\<open>"5"\<close> it stays behind it, where
  a year 0 would go in front.
\<close>

theorem digitless_year_is_not_zero:
  "replace_nondigits (yearString (timelineEvent ''unknown'' ''b'' ''d'' ''x'')) = []
   \<and> eventYear (timelineEvent ''unknown'' ''b'' ''d'' ''x'') \<noteq> Num 0
   \<and> eventYear (timelineEvent ''5'' ''a'' ''d'' ''x'') = Num 5
   \<and> sortedEvents [timelineEvent ''5'' ''a'' ''d'' ''x'', timelineEvent ''unknown'' ''b'' ''d'' ''x'']
       = Inr [timelineEvent ''5'' ''a'' ''d'' ''x'', timelineEvent ''unknown'' ''b'' ''d'' ''x'']"
  by code_simp

text \<open>
  Claim C2 as amended. For every event of a list of TimelineEvent values whose year string
  has no digit, the effective year is \<^verbatim>\<open>NaN\<close>, and sorting the list does not throw.
\<close>

theorem digitless_year_is_NaN:
  assumes "\<forall>e\<in>set xs. isTimelineEvent e" and "e \<in> set xs"
    and "replace_nondigits (yearString e) = []"
  shows "eventYear e = NaN \<and> (\<exists>ys. sortedEvents xs = Inr ys)"
proof -
  from assms(1) have "\<forall>e\<in>set xs. yearOf e = Inr (eventYear e)" by (rule events_readable)
  then have "\<exists>ys. sortedEvents xs = Inr ys" by (rule sortedEvents_total)
  moreover from assms(3) have "eventYear e = NaN"
    by (simp add: eventYear_def effectiveYear_digitless)
  ultimately show ?thesis by simp
qed

theorem digitless_year_is_NaN_witness:
  "isTimelineEvent (timelineEvent ''5'' ''a'' ''d'' ''x'')
   \<and> isTimelineEvent (timelineEvent ''unknown'' ''b'' ''d'' ''x'')
   \<and> replace_nondigits (yearString (timelineEvent ''unknown'' ''b'' ''d'' ''x'')) = []
   \<and> eventYear (timelineEvent ''unknown'' ''b'' ''d'' ''x'') = NaN
   \<and> (\<exists>ys. sortedEvents [timelineEvent ''5'' ''a'' ''d'' ''x'',
                          timelineEvent ''unknown'' ''b'' ''d'' ''x''] = Inr ys)"
proof -
  have a: "isTimelineEvent (timelineEvent ''5'' ''a'' ''d'' ''x'')" by code_simp
  have b: "isTimelineEvent (timelineEvent ''unknown'' ''b'' ''d'' ''x'')" by code_simp
  have d: "replace_nondigits (yearString (timelineEvent ''unknown'' ''b'' ''d'' ''x'')) = []"
    by code_simp
  from a b have all: "\<forall>e\<in>set [timelineEvent ''5'' ''a'' ''d'' ''x'',
      timelineEvent ''unknown'' ''b'' ''d'' ''x'']. isTimelineEvent e"
    by simp
  have "timelineEvent ''unknown'' ''b'' ''d'' ''x''
      \<in> set [timelineEvent ''5'' ''a'' ''d'' ''x'', timelineEvent ''unknown'' ''b'' ''d'' ''x'']"
    by simp
  from digitless_year_is_NaN [OF all this d] a b d show ?thesis by blast
qed

text \<open>
  Claim C4 (the era marker). The claim is stated for every year string. It fails where
  the digits read as zero: \<^verbatim>\<open>"BC 0"\<close> and \<^verbatim>\<open>"0"\<close> have the same effective year, the
  negation of zero being zero.
\<close>

theorem BC_zero_not_smaller:
  "includes_js (yearString (timelineEvent ''BC 0'' ''a'' ''d'' ''x'')) (js ''BC'')
   \<and> \<not> includes_js (yearString (timelineEvent ''0'' ''b'' ''d'' ''x'')) (js ''BC'')
   \<and> replace_nondigits (yearString (timelineEvent ''BC 0'' ''a'' ''d'' ''x''))
       = replace_nondigits (yearString (timelineEvent ''0'' ''b'' ''d'' ''x''))
   \<and> \<not> less_js (eventYear (timelineEvent ''BC 0'' ''a'' ''d'' ''x''))
         (eventYear (timelineEvent ''0'' ''b'' ''d'' ''x''))"
  by code_simp

text \<open>
  Claim C4 as amended. For two TimelineEvent values whose year strings have the same
  digits, reading as a positive number, the first including \<^verbatim>\<open>BC\<close> and the second not:
  the first has the strictly smaller effective year, and the sorter applied to the list of
  the two, in either order, returns the first in front, by the sort the language fixes
  and by the sort of V8.
\<close>

theorem BC_sorts_first:
  assumes "isTimelineEvent a" and "isTimelineEvent b"
    and "includes_js (yearString a) (js ''BC'')"
    and "\<not> includes_js (yearString b) (js ''BC'')"
    and "replace_nondigits (yearString a) = replace_nondigits (yearString b)"
    and "less_js (Num 0) (parseInt (replace_nondigits (yearString b)))"
  shows "less_js (eventYear a) (eventYear b)
     \<and> sortedEvents [b, a] = Inr [a, b] \<and> sortedEvents [a, b] = Inr [a, b]
     \<and> timSortShort compareEvents [b, a] = Some (Inr [a, b])
     \<and> timSortShort compareEvents [a, b] = Some (Inr [a, b])"
proof -
  define y where "y = parseInt (replace_nondigits (yearString b))"
  have ya: "eventYear a = neg y" using assms(3,5)
    by (simp add: eventYear_def effectiveYear_def y_def)
  have yb: "eventYear b = y" using assms(4)
    by (simp add: eventYear_def effectiveYear_def y_def)
  from assms(6) have "less_js (neg y) y" unfolding y_def [symmetric] by (cases y) simp_all
  with ya yb have lt: "less_js (eventYear a) (eventYear b)" by simp
  then have nlt: "\<not> less_js (eventYear b) (eventYear a)" by (rule less_js_asym)
  have ra: "yearOf a = Inr (eventYear a)" using assms(1) by (rule yearOf_isTimelineEvent)
  have rb: "yearOf b = Inr (eventYear b)" using assms(2) by (rule yearOf_isTimelineEvent)
  obtain v where v: "sortCompare compareEvents b a = Inr v"
    using ra rb by (simp add: sortCompare_def compareEvents_readable)
  obtain w where w: "sortCompare compareEvents a b = Inr w"
    using ra rb by (simp add: sortCompare_def compareEvents_readable)
  have vpos: "less_js (Num 0) v" using v lt by (simp add: sortCompare_positive)
  have vneg: "\<not> less_js v (Num 0)" using v nlt by (simp add: sortCompare_negative)
  have wpos: "\<not> less_js (Num 0) w" using w nlt by (simp add: sortCompare_positive)
  have wneg: "less_js w (Num 0)" using w lt by (simp add: sortCompare_negative)
  show ?thesis using lt v w vpos vneg wpos wneg
    by (simp add: sortedEvents_def timSortShort_def)
qed

theorem BC_sorts_first_witness:
  "less_js (eventYear (timelineEvent ''BC 108'' ''a'' ''d'' ''x''))
           (eventYear (timelineEvent ''AD 108'' ''b'' ''d'' ''x''))
   \<and> sortedEvents [timelineEvent ''AD 108'' ''b'' ''d'' ''x'', timelineEvent ''BC 108'' ''a'' ''d'' ''x'']
       = Inr [timelineEvent ''BC 108'' ''a'' ''d'' ''x'', timelineEvent ''AD 108'' ''b'' ''d'' ''x'']
   \<and> less_js (eventYear (timelineEvent ''BC 108'' ''a'' ''d'' ''x''))
           (eventYear (timelineEvent ''108'' ''c'' ''d'' ''x''))
   \<and> sortedEvents [timelineEvent ''108'' ''c'' ''d'' ''x'', timelineEvent ''BC 108'' ''a'' ''d'' ''x'']
       = Inr [timelineEvent ''BC 108'' ''a'' ''d'' ''x'', timelineEvent ''108'' ''c'' ''d'' ''x'']"
proof -
  have a: "isTimelineEvent (timelineEvent ''BC 108'' ''a'' ''d'' ''x'')" by code_simp
  have b: "isTimelineEvent (timelineEvent ''AD 108'' ''b'' ''d'' ''x'')" by code_simp
  have c: "isTimelineEvent (timelineEvent ''108'' ''c'' ''d'' ''x'')" by code_simp
  have ia: "includes_js (yearString (timelineEvent ''BC 108'' ''a'' ''d'' ''x'')) (js ''BC'')"
    by code_simp
  have ib: "\<not> includes_js (yearString (timelineEvent ''AD 108'' ''b'' ''d'' ''x'')) (js ''BC'')"
    by code_simp
  have ic: "\<not> includes_js (yearString (timelineEvent ''108'' ''c'' ''d'' ''x'')) (js ''BC'')"
    by code_simp
  have db: "replace_nondigits (yearString (timelineEvent ''BC 108'' ''a'' ''d'' ''x''))
      = replace_nondigits (yearString (timelineEvent ''AD 108'' ''b'' ''d'' ''x''))"
    by code_simp
  have dc: "replace_nondigits (yearString (timelineEvent ''BC 108'' ''a'' ''d'' ''x''))
      = replace_nondigits (yearString (timelineEvent ''108'' ''c'' ''d'' ''x''))"
    by code_simp
  have pb: "less_js (Num 0)
      (parseInt (replace_nondigits (yearString (timelineEvent ''AD 108'' ''b'' ''d'' ''x''))))"
    by code_simp
  have pc: "less_js (Num 0)
      (parseInt (replace_nondigits (yearString (timelineEvent ''108'' ''c'' ''d'' ''x''))))"
    by code_simp
  from BC_sorts_first [OF a b ia ib db pb] BC_sorts_first [OF a c ia ic dc pc]
  show ?thesis by blast
qed

section \<open>The request cycle\<close>

text \<open>
  Claim C5 (required fields). The claim: a response that parses as JSON and has in its
  array an object without one of \<^verbatim>\<open>year\<close>, \<^verbatim>\<open>title\<close>, \<^verbatim>\<open>description\<close>,
  \<^verbatim>\<open>details\<close> ends in the error outcome. The source checks no member after
  \<^verbatim>\<open>JSON.parse\<close>: the array of one object that has a \<^verbatim>\<open>year\<close> only ends the cycle
  without error, the object in the event list, its \<^verbatim>\<open>title\<close> undefined.
\<close>

theorem missing_title_reaches_state:
  "parseOne (trim yearOnlyText) = Some (JArray [yearOnly])
   \<and> field yearOnly ''title'' = None
   \<and> fetchTimeline parseOne (Response (Some yearOnlyText)) (js ''Joseon'') idle
       = (idle\<lparr>timelineEvents := [yearOnly]\<rparr>, [js ''Joseon''])"
  by (simp add: parseOne_yearOnlyText yearOnly_shape fetchTimeline_def decodeEvents_def
      sortedEvents_def idle_def)

text \<open>
  Claim C5 as amended. A response whose text parses as a JSON array of objects that
  follow the schema but for missing members is accepted, whichever members are missing:
  the cycle ends with no error, not loading, and the event list a reordering of the
  array.
\<close>

theorem missing_fields_accepted:
  assumes "parse (trim t) = Some (JArray xs)" and "\<forall>e\<in>set xs. matchesWhereDefined e"
  shows "\<exists>ys. fetchTimeline parse (Response (Some t)) p st
            = (st\<lparr>timelineEvents := ys, isLoading := False, error := None\<rparr>, [p])
          \<and> mset ys = mset xs"
proof -
  from assms(2) have "\<forall>e\<in>set xs. yearOf e = Inr (eventYear e)"
    by (simp add: matchesWhereDefined_readable)
  then obtain ys where ys: "sortedEvents xs = Inr ys" using sortedEvents_total by blast
  then have "mset ys = mset xs" unfolding sortedEvents_def by (rule sort_by_mset)
  moreover have "fetchTimeline parse (Response (Some t)) p st
            = (st\<lparr>timelineEvents := ys, isLoading := False, error := None\<rparr>, [p])"
    using assms(1) ys by (simp add: fetchTimeline_def decodeEvents_def)
  ultimately show ?thesis by blast
qed

theorem missing_fields_accepted_witness:
  "parseOne (trim yearOnlyText) = Some (JArray [yearOnly]) \<and> matchesWhereDefined yearOnly
   \<and> (\<exists>ys. fetchTimeline parseOne (Response (Some yearOnlyText)) (js ''Joseon'') idle
            = (idle\<lparr>timelineEvents := ys, isLoading := False, error := None\<rparr>, [js ''Joseon''])
          \<and> mset ys = mset [yearOnly])"
proof -
  have "\<forall>e\<in>set [yearOnly]. matchesWhereDefined e"
    by (simp add: yearOnly_matchesWhereDefined)
  from missing_fields_accepted [of parseOne yearOnlyText "[yearOnly]" "js ''Joseon''" idle,
      OF parseOne_yearOnlyText this] parseOne_yearOnlyText yearOnly_matchesWhereDefined
  show ?thesis by blast
qed

text \<open>
  Claim C6 (decode failure). The claim: every response text that does not parse as the
  declared schema ends in the error state with an empty event list. The source decodes
  with \<^verbatim>\<open>JSON.parse\<close> alone: the text \<^verbatim>\<open>[1,2]\<close>, an array of two numbers, is off the
  schema and ends the cycle with no error and the two numbers as the event list.
\<close>

theorem off_schema_array_accepted:
  "parseNumbers (trim numbersText) = Some (JArray numbers)
   \<and> \<not> matchesSchema (JArray numbers)
   \<and> fetchTimeline parseNumbers (Response (Some numbersText)) (js ''Joseon'') idle
       = (idle\<lparr>timelineEvents := numbers\<rparr>, [js ''Joseon''])"
  by (simp add: parseNumbers_numbersText numbers_off_schema sortedEvents_numbers
      fetchTimeline_def decodeEvents_def idle_def)

text \<open>
  Claim C6 as amended. For every response text that \<^verbatim>\<open>JSON.parse\<close> rejects, or reads as
  a value that is not an array, the cycle returns the state a rejected request leaves: the
  event list empty, not loading, the error the one generic message, the rest of the state
  as before. Nothing is thrown: the result is a state.
\<close>

theorem decode_failure_is_error_state:
  "\<forall>events. parse (trim t) \<noteq> Some (JArray events) \<Longrightarrow>
   fetchTimeline parse (Response (Some t)) p st
     = (st\<lparr>timelineEvents := [], isLoading := False, error := Some TimelineFetchFailed\<rparr>, [p])
   \<and> fetchTimeline parse (Response (Some t)) p st = fetchTimeline parse Rejected p st"
proof -
  assume h: "\<forall>events. parse (trim t) \<noteq> Some (JArray events)"
  have "\<exists>e. decodeEvents parse (Some t) = Inl e"
  proof (cases "parse (trim t)")
    case None
    then show ?thesis by (simp add: decodeEvents_def)
  next
    case (Some v)
    with h show ?thesis by (cases v) (simp_all add: decodeEvents_def)
  qed
  then show ?thesis by (auto simp: fetchTimeline_def)
qed

theorem decode_failure_is_error_state_witness:
  "(\<forall>events. parseOne (trim (js ''not json'')) \<noteq> Some (JArray events))
   \<and> fetchTimeline parseOne (Response (Some (js ''not json''))) (js ''Joseon'') idle
     = (idle\<lparr>timelineEvents := [], isLoading := False, error := Some TimelineFetchFailed\<rparr>,
        [js ''Joseon''])"
proof -
  have h: "\<forall>events. parseOne (trim (js ''not json'')) \<noteq> Some (JArray events)"
    by (simp add: parseOne_not_json)
  from decode_failure_is_error_state [of parseOne "js ''not json''" "js ''Joseon''" idle, OF h] h
  show ?thesis by blast
qed

text \<open>
  Claim C9 (blank topic). When the topic is empty or has whitespace only,
  \<^verbatim>\<open>handleSubmit\<close> sends no request and returns the state it was given.
\<close>

theorem blank_topic_no_request:
  "\<forall>c\<in>set (prompt st). isWhiteSpace c \<Longrightarrow> handleSubmit parse resp st = (st, [])"
  by (simp add: handleSubmit_def trim_blank)

theorem blank_topic_no_request_witness:
  "handleSubmit parseOne (Response (Some yearOnlyText)) (idle\<lparr>prompt := js ''   ''\<rparr>)
     = (idle\<lparr>prompt := js ''   ''\<rparr>, [])
   \<and> handleSubmit parseOne (Response (Some yearOnlyText)) (idle\<lparr>prompt := []\<rparr>)
     = (idle\<lparr>prompt := []\<rparr>, [])"
proof -
  have "\<forall>c\<in>set (prompt (idle\<lparr>prompt := js ''   ''\<rparr>)). isWhiteSpace c"
    by (simp add: js_def isWhiteSpace_def)
  moreover have "\<forall>c\<in>set (prompt (idle\<lparr>prompt := []\<rparr>)). isWhiteSpace c"
    by simp
  ultimately show ?thesis
    using blank_topic_no_request [of "idle\<lparr>prompt := js ''   ''\<rparr>"]
      blank_topic_no_request [of "idle\<lparr>prompt := []\<rparr>"] by blast
qed

end
